theory Spec2Isabelle
  imports Complex_Main "HOL-Library.Word" "HOL-Library.Multiset"
begin

section \<open>Machine types\<close>

text \<open>
  The widths are those of a 32-bit Windows build of
  \<^verbatim>\<open>host/lib/transport/udp_wsa_zero_copy.cpp\<close>: \<^verbatim>\<open>size_t\<close>, \<^verbatim>\<open>ssize_t\<close>, \<^verbatim>\<open>int\<close> and
  the \<^verbatim>\<open>len\<close> field of \<^verbatim>\<open>WSABUF\<close> are all 32 bits wide, so a conversion between them
  keeps the bit pattern. A signed value is a word read with \<^const>\<open>sint\<close>, an unsigned one a
  word read with \<^const>\<open>unat\<close>.

  A time-out is a \<^verbatim>\<open>double\<close> of seconds. The receive path never computes with it, it only
  hands it on, so it is modelled by a real number.
\<close>

type_synonym size_t = "32 word"
type_synonym ssize_t = "32 word"
type_synonym seconds = real

section \<open>The bounded buffer of free receive buffers\<close>

text \<open>
  \<^verbatim>\<open>bounded_buffer<udp_zero_copy_asio_mrb *>\<close> is declared in another file of the
  repository, \<^verbatim>\<open>uhd/transport/bounded_buffer.hpp\<close>; its two operations used here are
  modelled from the specification. An entry of the queue is a pointer to a managed receive
  buffer; the pointer is represented by the index of the buffer in \<^verbatim>\<open>_mrb_pool\<close>, which is
  also the index of its slice of the frame pool.
\<close>

record 'a bounded_buffer =
  capacity :: nat
  elems :: "'a list"

text \<open>
  Modelled from the spec: \<^verbatim>\<open>bounded_buffer::push_with_haste\<close> is missing. The spec says
  that \<open>push\<close> inserts a handle into a queue of fixed capacity, and that a push onto a full
  queue is a violation of the contract which the system must never commit. It does not say
  what such a push does: here it leaves the queue as it is, and every theorem that depends
  on a push states that there is room.
\<close>

definition push_with_haste :: "'a bounded_buffer \<Rightarrow> 'a \<Rightarrow> 'a bounded_buffer" where
  "push_with_haste q x =
     (if length (elems q) < capacity q then q\<lparr>elems := elems q @ [x]\<rparr> else q)"

text \<open>
  Modelled from the spec: \<^verbatim>\<open>bounded_buffer::pop_with_timed_wait\<close> is missing. The spec
  says that \<open>pop\<close> blocks until an entry is available or the time-out elapses, that on
  time-out it reports failure and leaves the queue unchanged, and that any available handle
  may be returned (no FIFO order is required). The call is modelled for one thread: an
  empty queue stays empty during the wait, and the pop times out. Which entry a successful
  pop returns is the choice of the implementation, given by \<open>pick\<close>.
\<close>

definition pop_with_timed_wait :: "'a bounded_buffer \<Rightarrow> nat \<Rightarrow> 'a option \<times> 'a bounded_buffer" where
  "pop_with_timed_wait q pick =
     (if elems q = [] then (None, q)
      else let j = pick mod length (elems q)
           in (Some (elems q ! j), q\<lparr>elems := take j (elems q) @ drop (Suc j) (elems q)\<rparr>))"

section \<open>Reusable managed receive buffer\<close>

text \<open>
  \<^verbatim>\<open>class udp_zero_copy_asio_mrb\<close>: the memory \<^verbatim>\<open>_mem\<close> (the index of the slice) and the
  length \<^verbatim>\<open>_len\<close>. The member \<^verbatim>\<open>_pending\<close> is a reference to the queue of the transport, so
  the operations take the queue and return it.
\<close>

record mrb =
  mrb_mem :: nat
  mrb_len :: size_t

text \<open>The constructor: \<^verbatim>\<open>_mem(mem), _len(0), _pending(pending)\<close>.\<close>

definition udp_zero_copy_asio_mrb :: "nat \<Rightarrow> mrb" where
  "udp_zero_copy_asio_mrb m = \<lparr>mrb_mem = m, mrb_len = 0\<rparr>"

text \<open>
  \<^verbatim>\<open>void release(void){ if (_len == 0) return; _pending.push_with_haste(this); _len = 0; }\<close>
\<close>

definition mrb_release :: "mrb \<Rightarrow> nat bounded_buffer \<Rightarrow> mrb \<times> nat bounded_buffer" where
  "mrb_release b q =
     (if mrb_len b = 0 then (b, q)
      else (b\<lparr>mrb_len := 0\<rparr>, push_with_haste q (mrb_mem b)))"

text \<open>
  \<^verbatim>\<open>sptr get_new(size_t len){ _len = len; return make_managed_buffer(this); }\<close>
  The handle returned is the pointer \<^verbatim>\<open>this\<close>; its reported size is \<^verbatim>\<open>_len\<close>.
\<close>

definition mrb_get_new :: "mrb \<Rightarrow> size_t \<Rightarrow> mrb \<times> nat" where
  "mrb_get_new b l = (b\<lparr>mrb_len := l\<rparr>, mrb_mem b)"

definition mrb_get_size :: "mrb \<Rightarrow> size_t" where
  "mrb_get_size b = mrb_len b"

section \<open>Reusable managed send buffer\<close>

text \<open>
  \<^verbatim>\<open>class udp_zero_copy_asio_msb\<close>. \<open>hEvent\<close> is the state of the event object
  \<^verbatim>\<open>_overlapped.hEvent\<close> (signalled or not); \<open>wsa_buf\<close> and \<open>wsa_len\<close> are the two fields of
  \<^verbatim>\<open>_wsa_buff\<close>.
\<close>

record msb =
  msb_sock_fd :: nat
  frame_size :: size_t
  committed :: bool
  hEvent :: bool
  wsa_buf :: nat
  wsa_len :: size_t

text \<open>A transmission handed to \<^verbatim>\<open>WSASend\<close>: the socket, the slice and the length.\<close>

datatype wsa_send = WSASend nat nat size_t

text \<open>
  \<^verbatim>\<open>
  void commit(size_t len){
      if (_committed) return;
      _committed = true;
      _wsa_buff.len = len;
      if (len == 0) WSASetEvent(_overlapped.hEvent);
      else WSASend(_sock_fd, &_wsa_buff, 1, NULL, 0, &_overlapped, NULL);
  }
  \<close>
  The result holds the transmission submitted, if any. The overlapped send completes
  later, as a step of the environment (\<open>send_completes\<close>).
\<close>

definition msb_commit :: "msb \<Rightarrow> size_t \<Rightarrow> msb \<times> wsa_send option" where
  "msb_commit b l =
     (if committed b then (b, None)
      else let b1 = b\<lparr>committed := True, wsa_len := l\<rparr>
           in if l = 0 then (b1\<lparr>hEvent := True\<rparr>, None)
              else (b1, Some (WSASend (msb_sock_fd b1) (wsa_buf b1) (wsa_len b1))))"

definition send_completes :: "msb \<Rightarrow> msb" where
  "send_completes b = b\<lparr>hEvent := True\<rparr>"

text \<open>
  The values of \<^verbatim>\<open>WSAWaitForMultipleEvents\<close> on one event. A wait on a signalled event
  returns \<^verbatim>\<open>WSA_WAIT_EVENT_0\<close> at once; the value of a wait on an event that is not
  signalled is given by the environment (\<open>during\<close>: the event is signalled within the
  time-out, the time-out elapses, the alertable wait is interrupted, or the wait fails).
\<close>

datatype wait_result = WSA_WAIT_EVENT_0 | WSA_WAIT_IO_COMPLETION | WSA_WAIT_TIMEOUT | WSA_WAIT_FAILED

definition WSAWaitForMultipleEvents :: "bool \<Rightarrow> wait_result \<Rightarrow> wait_result" where
  "WSAWaitForMultipleEvents signalled during = (if signalled then WSA_WAIT_EVENT_0 else during)"

text \<open>
  \<^verbatim>\<open>
  sptr get_new(const double timeout, size_t &index){
      const DWORD result = WSAWaitForMultipleEvents(1, &_overlapped.hEvent, true, DWORD(timeout*1000), true);
      if (result == WSA_WAIT_TIMEOUT) return managed_send_buffer::sptr();
      index++; //advances the caller's buffer
      WSAResetEvent(_overlapped.hEvent);
      _committed = false;
      _wsa_buff.len = _frame_size;
      return make_managed_buffer(this);
  }
  \<close>
  The reference parameter \<open>index\<close> is an argument and a component of the result. The
  time-out is represented by the outcome \<open>during\<close> of the wait.
\<close>

definition msb_get_new :: "msb \<Rightarrow> wait_result \<Rightarrow> size_t \<Rightarrow> nat option \<times> msb \<times> size_t" where
  "msb_get_new b during index =
     (if WSAWaitForMultipleEvents (hEvent b) during = WSA_WAIT_TIMEOUT then (None, b, index)
      else (Some (wsa_buf b),
            b\<lparr>hEvent := False, committed := False, wsa_len := frame_size b\<rparr>,
            index + 1))"

definition msb_get_size :: "msb \<Rightarrow> size_t" where
  "msb_get_size b = wsa_len b"

section \<open>Errors\<close>

text \<open>
  What the constructors throw: \<^verbatim>\<open>std::bad_alloc\<close> from the buffer pool,
  \<^verbatim>\<open>uhd::assertion_error\<close> from \<^verbatim>\<open>UHD_ASSERT_THROW\<close> (with the text of the condition),
  \<^verbatim>\<open>boost::system::system_error\<close> from the resolver and \<^verbatim>\<open>uhd::os_error\<close>. An index
  outside a vector has no defined behaviour in the source; the model stops with
  \<open>out_of_range\<close>.
\<close>

datatype error = bad_alloc | assertion_error string | system_error | os_error string | out_of_range

text \<open>
  The constructor of the send buffer. \<open>event_ok\<close> says whether \<^verbatim>\<open>WSACreateEvent\<close> returned
  a valid event; a new event is not signalled. \<^verbatim>\<open>_wsa_buff.len\<close> is not initialised before
  \<^verbatim>\<open>commit(0)\<close> assigns it.
\<close>

definition udp_zero_copy_asio_msb :: "nat \<Rightarrow> nat \<Rightarrow> size_t \<Rightarrow> bool \<Rightarrow> error + msb" where
  "udp_zero_copy_asio_msb m sock fs event_ok =
     (if \<not> event_ok then Inl (assertion_error ''_overlapped.hEvent != WSA_INVALID_EVENT'')
      else Inr (fst (msb_commit
             \<lparr>msb_sock_fd = sock, frame_size = fs, committed = False, hEvent = False,
              wsa_buf = m, wsa_len = 0\<rparr> 0)))"

section \<open>The transport\<close>

text \<open>
  \<^verbatim>\<open>class udp_zero_copy_wsa_impl\<close>. The two frame pools hold no state of their own and are
  left out; a slice is named by its index.
\<close>

record transport =
  recv_frame_size :: size_t
  num_recv_frames :: size_t
  send_frame_size :: size_t
  num_send_frames :: size_t
  msb_pool :: "msb list"
  mrb_pool :: "mrb list"
  pending_recv_buffs :: "nat bounded_buffer"
  next_send_buff_index :: size_t
  sock_fd :: nat

subsection \<open>Construction\<close>

text \<open>
  The hints after their conversion \<^verbatim>\<open>size_t(hints.cast<double>(...))\<close>, defaults filled in.
\<close>

record hints =
  hint_recv_frame_size :: size_t
  hint_num_recv_frames :: size_t
  hint_send_frame_size :: size_t
  hint_num_send_frames :: size_t

text \<open>
  What the collaborators answer during construction: whether \<^verbatim>\<open>buffer_pool::make\<close>
  could allocate the two pools, whether the resolver found the address, the socket
  \<^verbatim>\<open>WSASocket\<close> returned (\<open>None\<close> for \<^verbatim>\<open>INVALID_SOCKET\<close>) with the error code read after it,
  whether \<^verbatim>\<open>WSAConnect\<close> returned 0, and whether \<^verbatim>\<open>WSACreateEvent\<close> returned a valid event
  for the send buffer of each index.
\<close>

record ctor_env =
  pools_ok :: bool
  resolve_ok :: bool
  wsa_socket :: "nat option"
  connect_ok :: bool
  create_event_ok :: "nat \<Rightarrow> bool"

text \<open>
  \<^verbatim>\<open>
  for (size_t i = 0; i < get_num_recv_frames(); i++){
      _mrb_pool.push_back(... new udp_zero_copy_asio_mrb(_recv_buffer_pool->at(i), _pending_recv_buffs));
      _pending_recv_buffs.push_with_haste(_mrb_pool.back().get());
  }
  \<close>
\<close>

fun alloc_mrbs :: "nat list \<Rightarrow> mrb list \<times> nat bounded_buffer \<Rightarrow> mrb list \<times> nat bounded_buffer" where
  "alloc_mrbs [] (pool, q) = (pool, q)"
| "alloc_mrbs (i # is) (pool, q) =
     alloc_mrbs is (pool @ [udp_zero_copy_asio_mrb i], push_with_haste q i)"

text \<open>
  \<^verbatim>\<open>
  for (size_t i = 0; i < get_num_send_frames(); i++){
      _msb_pool.push_back(... new udp_zero_copy_asio_msb(_send_buffer_pool->at(i), _sock_fd, get_send_frame_size()));
  }
  \<close>
  A constructor that throws ends the loop and the construction.
\<close>

fun alloc_msbs :: "nat \<Rightarrow> size_t \<Rightarrow> (nat \<Rightarrow> bool) \<Rightarrow> nat list \<Rightarrow> msb list \<Rightarrow> error + msb list" where
  "alloc_msbs sock fs ev [] pool = Inr pool"
| "alloc_msbs sock fs ev (i # is) pool =
     (case udp_zero_copy_asio_msb i sock fs (ev i) of
        Inl e \<Rightarrow> Inl e
      | Inr b \<Rightarrow> alloc_msbs sock fs ev is (pool @ [b]))"

text \<open>
  The constructor \<^verbatim>\<open>udp_zero_copy_wsa_impl(addr, port, hints)\<close>, which \<^verbatim>\<open>udp_zero_copy::make\<close>
  calls. \<open>max_wait\<close> is the constant \<^verbatim>\<open>WSA_MAXIMUM_WAIT_EVENTS\<close> of the platform's headers.
  The macro \<^verbatim>\<open>UHD_ASSERT_THROW\<close> is defined in another file of the repository; it throws
  an assertion error when its condition is false, as its name says and as the
  specification has it (a number of send frames above the ceiling is fatal to the
  construction).
  The member initialisers make the two pools and the queue (of capacity
  \<^verbatim>\<open>_num_recv_frames\<close>) first; then the body checks the number of send frames, resolves
  the address, creates and connects the socket and allocates the buffers. Setting the
  socket options changes nothing the transport holds and is left out.
\<close>

definition udp_zero_copy_make :: "size_t \<Rightarrow> hints \<Rightarrow> ctor_env \<Rightarrow> error + transport" where
  "udp_zero_copy_make max_wait h env =
     (if \<not> pools_ok env then Inl bad_alloc
      else if \<not> (hint_num_send_frames h \<le> max_wait)
        then Inl (assertion_error ''_num_send_frames <= WSA_MAXIMUM_WAIT_EVENTS'')
      else if \<not> resolve_ok env then Inl system_error
      else case wsa_socket env of
        None \<Rightarrow> Inl (os_error ''WSASocket() failed'')
      | Some fd \<Rightarrow>
          if \<not> connect_ok env then Inl (os_error ''WSAConnect() failed'')
          else
            let (mrbs, q) = alloc_mrbs [0 ..< unat (hint_num_recv_frames h)]
                              ([], \<lparr>capacity = unat (hint_num_recv_frames h), elems = []\<rparr>)
            in (case alloc_msbs fd (hint_send_frame_size h) (create_event_ok env)
                      [0 ..< unat (hint_num_send_frames h)] [] of
                 Inl e \<Rightarrow> Inl e
               | Inr msbs \<Rightarrow>
                   Inr \<lparr>recv_frame_size = hint_recv_frame_size h,
                        num_recv_frames = hint_num_recv_frames h,
                        send_frame_size = hint_send_frame_size h,
                        num_send_frames = hint_num_send_frames h,
                        msb_pool = msbs,
                        mrb_pool = mrbs,
                        pending_recv_buffs = q,
                        next_send_buff_index = 0,
                        sock_fd = fd\<rparr>))"

subsection \<open>Receive\<close>

text \<open>
  What the collaborators answer during one call of \<^verbatim>\<open>get_recv_buff\<close>: which entry the pop
  returns and how long it took, the value of the first \<^verbatim>\<open>recv\<close>, whether
  \<^verbatim>\<open>wait_for_recv_ready\<close> (of \<^verbatim>\<open>udp_common.hpp\<close>: it waits until the socket is readable or
  the time-out it is given elapses) reported readiness, and the value of the second
  \<^verbatim>\<open>recv\<close>. The code never asks how long the pop took. A value
  of \<^verbatim>\<open>recv\<close> is the number of bytes read, 0 for a datagram without payload, or the
  negative \<^verbatim>\<open>SOCKET_ERROR\<close> (on the non-blocking socket also when no datagram is there).
\<close>

record recv_env =
  pick :: nat
  pop_took :: seconds
  recv_first :: ssize_t
  recv_ready :: bool
  recv_second :: ssize_t

text \<open>The calls a \<^verbatim>\<open>get_recv_buff\<close> makes to the queue and to the socket, with their arguments.\<close>

datatype recv_call =
    Pop_with_timed_wait seconds
  | Recv size_t
  | Wait_for_recv_ready seconds
  | Push_with_haste nat

text \<open>
  \<^verbatim>\<open>
  managed_recv_buffer::sptr get_recv_buff(double timeout){
      udp_zero_copy_asio_mrb *mrb = NULL;
      if (_pending_recv_buffs.pop_with_timed_wait(mrb, timeout)){
          ssize_t ret = ::recv(_sock_fd, mrb->cast<char *>(), _recv_frame_size, 0);
          if (ret > 0) return mrb->get_new(ret);
          if (wait_for_recv_ready(_sock_fd, timeout)) return mrb->get_new(
              ::recv(_sock_fd, mrb->cast<char *>(), _recv_frame_size, 0)
          );
          _pending_recv_buffs.push_with_haste(mrb); //timeout: return the managed buffer to the queue
      }
      return managed_recv_buffer::sptr();
  }
  \<close>
  The result is the handle (or none), the transport afterwards and the calls made, in
  order.
\<close>

definition fill :: "transport \<Rightarrow> nat \<Rightarrow> size_t \<Rightarrow> nat \<times> transport" where
  "fill t i l =
     (let (b, h) = mrb_get_new (mrb_pool t ! i) l
      in (h, t\<lparr>mrb_pool := (mrb_pool t)[i := b]\<rparr>))"

definition get_recv_buff :: "transport \<Rightarrow> seconds \<Rightarrow> recv_env \<Rightarrow> nat option \<times> transport \<times> recv_call list" where
  "get_recv_buff t timeout env =
     (case pop_with_timed_wait (pending_recv_buffs t) (pick env) of
        (None, q) \<Rightarrow> (None, t, [Pop_with_timed_wait timeout])
      | (Some i, q) \<Rightarrow>
          let t1 = t\<lparr>pending_recv_buffs := q\<rparr>; ret = recv_first env
          in if 0 < sint ret
             then (let (h, t2) = fill t1 i ret
                   in (Some h, t2, [Pop_with_timed_wait timeout, Recv (recv_frame_size t)]))
             else if recv_ready env
             then (let (h, t2) = fill t1 i (recv_second env)
                   in (Some h, t2,
                       [Pop_with_timed_wait timeout, Recv (recv_frame_size t),
                        Wait_for_recv_ready timeout, Recv (recv_frame_size t)]))
             else (None, t1\<lparr>pending_recv_buffs := push_with_haste q i\<rparr>,
                   [Pop_with_timed_wait timeout, Recv (recv_frame_size t),
                    Wait_for_recv_ready timeout, Push_with_haste i]))"

text \<open>
  The caller lets go of the handle of the receive buffer \<open>i\<close>: \<^verbatim>\<open>release\<close> runs on that
  buffer, with the queue of the transport.
\<close>

definition release_recv_buff :: "transport \<Rightarrow> nat \<Rightarrow> transport" where
  "release_recv_buff t i =
     (let (b, q) = mrb_release (mrb_pool t ! i) (pending_recv_buffs t)
      in t\<lparr>mrb_pool := (mrb_pool t)[i := b], pending_recv_buffs := q\<rparr>)"

subsection \<open>Send\<close>

text \<open>
  \<^verbatim>\<open>
  managed_send_buffer::sptr get_send_buff(double timeout){
      if (_next_send_buff_index == _num_send_frames) _next_send_buff_index = 0;
      return _msb_pool[_next_send_buff_index]->get_new(timeout, _next_send_buff_index);
  }
  \<close>
  \<open>wrap_index\<close> is the first statement, \<open>get_send_buff\<close> the whole function.
\<close>

definition wrap_index :: "transport \<Rightarrow> transport" where
  "wrap_index t =
     (if next_send_buff_index t = num_send_frames t then t\<lparr>next_send_buff_index := 0\<rparr> else t)"

definition get_send_buff :: "transport \<Rightarrow> wait_result \<Rightarrow> error + (nat option \<times> transport)" where
  "get_send_buff t during =
     (let t1 = wrap_index t; i = unat (next_send_buff_index t1)
      in if i < length (msb_pool t1)
         then (case msb_get_new (msb_pool t1 ! i) during (next_send_buff_index t1) of
                 (h, b, index) \<Rightarrow>
                   Inr (h, t1\<lparr>msb_pool := (msb_pool t1)[i := b], next_send_buff_index := index\<rparr>))
         else Inl out_of_range)"

text \<open>The caller commits the send buffer \<open>i\<close>; the environment completes its transmission.\<close>

definition commit_send_buff :: "transport \<Rightarrow> nat \<Rightarrow> size_t \<Rightarrow> transport" where
  "commit_send_buff t i l = t\<lparr>msb_pool := (msb_pool t)[i := fst (msb_commit (msb_pool t ! i) l)]\<rparr>"

definition complete_send_buff :: "transport \<Rightarrow> nat \<Rightarrow> transport" where
  "complete_send_buff t i = t\<lparr>msb_pool := (msb_pool t)[i := send_completes (msb_pool t ! i)]\<rparr>"

section \<open>Runs of the send side\<close>

text \<open>
  What happens to the send side, one step after the other: the caller asks for a send
  buffer (with the outcome of the wait), the caller commits the buffer \<open>i\<close> with a length,
  the environment completes the transmission of the buffer \<open>i\<close>. \<open>send_run\<close> collects the
  result of every \<^verbatim>\<open>get_send_buff\<close> of the run, in order, and stops at an error.
\<close>

datatype send_action = Get_send_buff wait_result | Commit nat size_t | Complete nat

fun send_run :: "transport \<Rightarrow> send_action list \<Rightarrow> error + (nat option list \<times> transport)" where
  "send_run t [] = Inr ([], t)"
| "send_run t (Get_send_buff w # as) =
     (case get_send_buff t w of
        Inl e \<Rightarrow> Inl e
      | Inr (h, t1) \<Rightarrow>
          (case send_run t1 as of Inl e \<Rightarrow> Inl e | Inr (hs, t2) \<Rightarrow> Inr (h # hs, t2)))"
| "send_run t (Commit i l # as) = send_run (commit_send_buff t i l) as"
| "send_run t (Complete i # as) = send_run (complete_send_buff t i) as"

text \<open>The buffers handed out among the results of a run.\<close>

fun handed_out :: "nat option list \<Rightarrow> nat list" where
  "handed_out [] = []"
| "handed_out (None # hs) = handed_out hs"
| "handed_out (Some h # hs) = h # handed_out hs"

section \<open>Well-formed transports\<close>

text \<open>
  What the constructor establishes and every operation keeps. On the receive side: the
  queue holds no more entries than its capacity, every entry points to a buffer of the
  pool, and the buffer at index \<open>i\<close> owns the slice \<open>i\<close>. On the send side: the pool has
  \<^verbatim>\<open>_num_send_frames\<close> buffers, at least one, the rotating index is not beyond their
  number, and the buffer at index \<open>i\<close> owns the slice \<open>i\<close>.
\<close>

definition recv_inv :: "transport \<Rightarrow> bool" where
  "recv_inv t \<longleftrightarrow>
     length (elems (pending_recv_buffs t)) \<le> capacity (pending_recv_buffs t) \<and>
     list_all (\<lambda>i. i < length (mrb_pool t)) (elems (pending_recv_buffs t)) \<and>
     list_all (\<lambda>i. mrb_mem (mrb_pool t ! i) = i) [0 ..< length (mrb_pool t)]"

definition send_inv :: "transport \<Rightarrow> bool" where
  "send_inv t \<longleftrightarrow>
     length (msb_pool t) = unat (num_send_frames t) \<and>
     0 < num_send_frames t \<and>
     next_send_buff_index t \<le> num_send_frames t \<and>
     list_all (\<lambda>i. wsa_buf (msb_pool t ! i) = i) [0 ..< length (msb_pool t)]"

section \<open>An example transport\<close>

text \<open>
  Four receive frames and two send frames of 1500 bytes, a platform that waits on at most
  64 events, and collaborators that succeed.
\<close>

definition example_hints :: hints where
  "example_hints = \<lparr>hint_recv_frame_size = 1500, hint_num_recv_frames = 4,
                     hint_send_frame_size = 1500, hint_num_send_frames = 2\<rparr>"

definition cooperative :: ctor_env where
  "cooperative = \<lparr>pools_ok = True, resolve_ok = True, wsa_socket = Some 3, connect_ok = True,
                   create_event_ok = (\<lambda>i. True)\<rparr>"

definition example_transport :: transport where
  "example_transport =
     \<lparr>recv_frame_size = 1500, num_recv_frames = 4, send_frame_size = 1500, num_send_frames = 2,
      msb_pool =
        [\<lparr>msb_sock_fd = 3, frame_size = 1500, committed = True, hEvent = True,
          wsa_buf = 0, wsa_len = 0\<rparr>,
         \<lparr>msb_sock_fd = 3, frame_size = 1500, committed = True, hEvent = True,
          wsa_buf = 1, wsa_len = 0\<rparr>],
      mrb_pool =
        [\<lparr>mrb_mem = 0, mrb_len = 0\<rparr>, \<lparr>mrb_mem = 1, mrb_len = 0\<rparr>,
         \<lparr>mrb_mem = 2, mrb_len = 0\<rparr>, \<lparr>mrb_mem = 3, mrb_len = 0\<rparr>],
      pending_recv_buffs = \<lparr>capacity = 4, elems = [0, 1, 2, 3]\<rparr>,
      next_send_buff_index = 0, sock_fd = 3\<rparr>"

text \<open>
  Answers to one \<^verbatim>\<open>get_recv_buff\<close>. In all of them the pop returns the oldest entry and the
  first \<^verbatim>\<open>recv\<close> finds no datagram, unless said otherwise.
  \<^item> \<open>silent\<close>: no datagram arrives, the wait for readiness times out.
  \<^item> \<open>slow_pop\<close>: the pop took half a second; then a datagram of 100 bytes arrives.
  \<^item> \<open>empty_datagram_first\<close>: the first \<^verbatim>\<open>recv\<close> reads a datagram without payload, then
    nothing arrives.
  \<^item> \<open>empty_datagram_second\<close>: a datagram without payload arrives during the wait.
  \<^item> \<open>failing_second\<close>: the socket is reported ready and the second \<^verbatim>\<open>recv\<close> returns
    \<^verbatim>\<open>SOCKET_ERROR\<close>, which is -1.
\<close>

definition silent :: recv_env where
  "silent = \<lparr>pick = 0, pop_took = 0, recv_first = - 1, recv_ready = False, recv_second = - 1\<rparr>"

definition slow_pop :: recv_env where
  "slow_pop = \<lparr>pick = 0, pop_took = 1 / 2, recv_first = - 1, recv_ready = True, recv_second = 100\<rparr>"

definition empty_datagram_first :: recv_env where
  "empty_datagram_first =
     \<lparr>pick = 0, pop_took = 0, recv_first = 0, recv_ready = False, recv_second = - 1\<rparr>"

definition empty_datagram_second :: recv_env where
  "empty_datagram_second =
     \<lparr>pick = 0, pop_took = 0, recv_first = - 1, recv_ready = True, recv_second = 0\<rparr>"

definition failing_second :: recv_env where
  "failing_second =
     \<lparr>pick = 0, pop_took = 0, recv_first = - 1, recv_ready = True, recv_second = - 1\<rparr>"

text \<open>A send buffer of the example transport after the caller acquired it.\<close>

definition acquired :: msb where
  "acquired = \<lparr>msb_sock_fd = 3, frame_size = 1500, committed = False, hEvent = False,
               wsa_buf = 0, wsa_len = 1500\<rparr>"

text \<open>
  A run of the send side of the example transport. In every \<^verbatim>\<open>get_send_buff\<close> the wait
  would time out unless the event is signalled. The caller acquires the buffer 0 and
  commits 100 bytes, acquires the buffer 1, asks again while the transmission of the
  buffer 0 is under way, asks again after its completion, and asks once more while the
  buffer 1, never committed, is still its own.
\<close>

definition example_run :: "send_action list" where
  "example_run =
     [Get_send_buff WSA_WAIT_TIMEOUT, Commit 0 100, Get_send_buff WSA_WAIT_TIMEOUT,
      Get_send_buff WSA_WAIT_TIMEOUT, Complete 0, Get_send_buff WSA_WAIT_TIMEOUT,
      Get_send_buff WSA_WAIT_TIMEOUT]"

section \<open>The example transport is the one the constructor makes\<close>

lemma make_example: "udp_zero_copy_make 64 example_hints cooperative = Inr example_transport"
  by (simp add: udp_zero_copy_make_def example_hints_def cooperative_def example_transport_def
      upt_rec push_with_haste_def udp_zero_copy_asio_mrb_def udp_zero_copy_asio_msb_def
      msb_commit_def)

lemma recv_inv_example: "recv_inv example_transport"
  by (simp add: recv_inv_def example_transport_def upt_rec)

lemma send_inv_example: "send_inv example_transport"
  by (simp add: send_inv_def example_transport_def upt_rec)

section \<open>Release of a receive buffer\<close>

lemma mrb_release_zero: "mrb_len b = 0 \<Longrightarrow> mrb_release b q = (b, q)"
  by (simp add: mrb_release_def)

lemma mrb_release_nonzero:
  "mrb_len b \<noteq> 0 \<Longrightarrow>
   mrb_release b q = (b\<lparr>mrb_len := 0\<rparr>, push_with_haste q (mrb_mem b))"
  by (simp add: mrb_release_def)

lemma mrb_release_twice:
  "mrb_release (fst (mrb_release b q)) (snd (mrb_release b q)) = mrb_release b q"
  by (simp add: mrb_release_def)

lemma mrb_release_after_fill:
  "l \<noteq> 0 \<Longrightarrow> length (elems q) < capacity q \<Longrightarrow>
   elems (snd (mrb_release (fst (mrb_get_new b l)) q)) = elems q @ [mrb_mem b]"
  by (simp add: mrb_release_def mrb_get_new_def push_with_haste_def)

lemma mrb_release_after_zero_fill:
  "mrb_release (fst (mrb_get_new b 0)) q = (b\<lparr>mrb_len := 0\<rparr>, q)"
  by (simp add: mrb_release_def mrb_get_new_def)

text \<open>
  C1. A receive buffer released once after a fill goes back to the queue, for every length
  of the fill, also 0. The code does not do that for the length 0: when a datagram without
  payload arrives during the wait for readiness, \<^verbatim>\<open>get_recv_buff\<close> fills the buffer 0 with
  the length 0 and hands it out, the queue holds the buffers 1, 2 and 3, and the release
  of the buffer 0 returns at once because the length is 0: the queue still holds the
  buffers 1, 2 and 3 only.
\<close>

theorem zero_length_fill_is_never_released:
  "case get_recv_buff example_transport 1 empty_datagram_second of
     (h, t, cs) \<Rightarrow>
       h = Some 0 \<and> mrb_get_size (mrb_pool t ! 0) = 0 \<and>
       elems (pending_recv_buffs t) = [1, 2, 3] \<and>
       elems (pending_recv_buffs (release_recv_buff t 0)) = [1, 2, 3]"
  by (simp add: get_recv_buff_def example_transport_def empty_datagram_second_def
      pop_with_timed_wait_def fill_def mrb_get_new_def mrb_get_size_def release_recv_buff_def
      mrb_release_def)

section \<open>The receive path\<close>

lemma pop_nonempty:
  "elems q \<noteq> [] \<Longrightarrow>
   pop_with_timed_wait q k =
     (Some (elems q ! (k mod length (elems q))),
      q\<lparr>elems := take (k mod length (elems q)) (elems q) @ drop (Suc (k mod length (elems q))) (elems q)\<rparr>)"
  by (simp add: pop_with_timed_wait_def Let_def)

lemma pop_empty: "elems q = [] \<Longrightarrow> pop_with_timed_wait q k = (None, q)"
  by (simp add: pop_with_timed_wait_def)

lemma mset_without_nth:
  "j < length xs \<Longrightarrow> mset (take j xs @ drop (Suc j) xs) + {#xs ! j#} = mset xs"
proof -
  assume j: "j < length xs"
  then have "xs = take j xs @ xs ! j # drop (Suc j) xs"
    by (rule id_take_nth_drop)
  then have "mset xs = mset (take j xs @ xs ! j # drop (Suc j) xs)"
    by simp
  then show ?thesis by simp
qed

lemma length_without_nth:
  "j < length xs \<Longrightarrow> Suc (length (take j xs @ drop (Suc j) xs)) = length xs"
  by simp

lemma push_after_pop:
  assumes ne: "elems q \<noteq> []" and cap: "length (elems q) \<le> capacity q"
  shows "elems (push_with_haste (snd (pop_with_timed_wait q k)) (elems q ! (k mod length (elems q))))
         = take (k mod length (elems q)) (elems q) @ drop (Suc (k mod length (elems q))) (elems q)
           @ [elems q ! (k mod length (elems q))]"
proof -
  let ?j = "k mod length (elems q)"
  have j: "?j < length (elems q)" using ne by simp
  have "length (take ?j (elems q) @ drop (Suc ?j) (elems q)) < capacity q"
    using length_without_nth [OF j] cap by linarith
  then show ?thesis
    using ne by (simp add: pop_nonempty push_with_haste_def)
qed

text \<open>
  C3. When \<^verbatim>\<open>get_recv_buff\<close> pops a free buffer, the first read brings no data and the wait
  for readiness times out, the popped buffer is pushed back onto the queue and the call
  returns none: the queue holds as many entries as before the call, and the same ones.
\<close>

theorem timed_out_recv_restores_queue:
  assumes popped: "elems (pending_recv_buffs t) \<noteq> []"
    and room: "length (elems (pending_recv_buffs t)) \<le> capacity (pending_recv_buffs t)"
    and no_data: "\<not> 0 < sint (recv_first env)"
    and timed_out: "\<not> recv_ready env"
  shows "fst (get_recv_buff t timeout env) = None \<and>
         Push_with_haste (elems (pending_recv_buffs t) ! (pick env mod length (elems (pending_recv_buffs t))))
           \<in> set (snd (snd (get_recv_buff t timeout env))) \<and>
         length (elems (pending_recv_buffs (fst (snd (get_recv_buff t timeout env)))))
           = length (elems (pending_recv_buffs t)) \<and>
         mset (elems (pending_recv_buffs (fst (snd (get_recv_buff t timeout env)))))
           = mset (elems (pending_recv_buffs t)) \<and>
         mrb_pool (fst (snd (get_recv_buff t timeout env))) = mrb_pool t"
proof -
  let ?q = "pending_recv_buffs t"
  let ?j = "pick env mod length (elems ?q)"
  let ?i = "elems ?q ! ?j"
  have j: "?j < length (elems ?q)" using popped by simp
  have run: "get_recv_buff t timeout env =
      (None, t\<lparr>pending_recv_buffs := push_with_haste (snd (pop_with_timed_wait ?q (pick env))) ?i\<rparr>,
       [Pop_with_timed_wait timeout, Recv (recv_frame_size t),
        Wait_for_recv_ready timeout, Push_with_haste ?i])"
    using popped no_data timed_out
    by (simp add: get_recv_buff_def pop_nonempty Let_def)
  have after: "elems (push_with_haste (snd (pop_with_timed_wait ?q (pick env))) ?i)
      = take ?j (elems ?q) @ drop (Suc ?j) (elems ?q) @ [?i]"
    by (rule push_after_pop [OF popped room])
  have len: "length (take ?j (elems ?q) @ drop (Suc ?j) (elems ?q) @ [?i]) = length (elems ?q)"
    using length_without_nth [OF j] by simp
  have ms: "mset (take ?j (elems ?q) @ drop (Suc ?j) (elems ?q) @ [?i]) = mset (elems ?q)"
    using mset_without_nth [OF j] by simp
  show ?thesis
    unfolding run using after len ms by simp
qed

theorem timed_out_recv_restores_queue_witness:
  "fst (get_recv_buff example_transport 1 silent) = None \<and>
   elems (pending_recv_buffs (fst (snd (get_recv_buff example_transport 1 silent)))) = [1, 2, 3, 0] \<and>
   length (elems (pending_recv_buffs (fst (snd (get_recv_buff example_transport 1 silent))))) = 4"
proof -
  have a: "elems (pending_recv_buffs example_transport) \<noteq> []"
    by (simp add: example_transport_def)
  have b: "length (elems (pending_recv_buffs example_transport)) \<le> capacity (pending_recv_buffs example_transport)"
    by (simp add: example_transport_def)
  have c: "\<not> 0 < sint (recv_first silent)" by (simp add: silent_def)
  have d: "\<not> recv_ready silent" by (simp add: silent_def)
  have e: "elems (pending_recv_buffs (fst (snd (get_recv_buff example_transport 1 silent)))) = [1, 2, 3, 0]"
    by (simp add: get_recv_buff_def example_transport_def silent_def pop_with_timed_wait_def push_with_haste_def)
  show ?thesis
    using timed_out_recv_restores_queue [OF a b c d, of 1] e by (simp add: example_transport_def)
qed

lemma mod_of_negative:
  fixes x m :: int
  assumes "- m \<le> x" and "x < 0"
  shows "x mod m = x + m"
proof -
  have "x mod m = (x + m) mod m" by simp
  also have "\<dots> = x + m"
    using assms by (intro mod_pos_pos_trivial) auto
  finally show ?thesis .
qed

lemma negative_as_unsigned:
  fixes w :: "32 word"
  assumes neg: "sint w < 0"
  shows "int (unat w) = sint w + 2 ^ 32"
proof -
  have "- (2 ^ (LENGTH(32) - 1)) \<le> sint w"
    by (rule sint_ge)
  moreover have "(2::int) ^ (LENGTH(32) - 1) \<le> 2 ^ 32"
    by (rule power_increasing) simp_all
  ultimately have lo: "- (2 ^ 32) \<le> sint w"
    by linarith
  have "uint w = sint w mod 2 ^ 32"
    by (simp add: uint_sint take_bit_eq_mod)
  also have "\<dots> = sint w + 2 ^ 32"
    using lo neg by (rule mod_of_negative)
  finally have "uint w = sint w + 2 ^ 32" .
  then show ?thesis
    by (simp only: uint_nat)
qed

lemma recv_inv_entry:
  assumes inv: "recv_inv t" and ne: "elems (pending_recv_buffs t) \<noteq> []"
  shows "elems (pending_recv_buffs t) ! (k mod length (elems (pending_recv_buffs t))) < length (mrb_pool t) \<and>
         mrb_mem (mrb_pool t ! (elems (pending_recv_buffs t) ! (k mod length (elems (pending_recv_buffs t)))))
           = elems (pending_recv_buffs t) ! (k mod length (elems (pending_recv_buffs t)))"
proof -
  let ?xs = "elems (pending_recv_buffs t)"
  let ?i = "?xs ! (k mod length ?xs)"
  have "?i \<in> set ?xs" using ne by simp
  moreover have "\<forall>i \<in> set ?xs. i < length (mrb_pool t)"
    using inv by (simp add: recv_inv_def list_all_iff)
  ultimately have lt: "?i < length (mrb_pool t)" by blast
  have "\<forall>i \<in> set [0 ..< length (mrb_pool t)]. mrb_mem (mrb_pool t ! i) = i"
    using inv by (simp add: recv_inv_def list_all_iff)
  then have "mrb_mem (mrb_pool t ! ?i) = ?i" using lt by simp
  with lt show ?thesis by simp
qed

lemma get_recv_buff_second_read:
  assumes popped: "elems (pending_recv_buffs t) \<noteq> []"
    and no_data: "\<not> 0 < sint (recv_first env)"
    and ready: "recv_ready env"
  shows "get_recv_buff t timeout env =
     (Some (mrb_mem (mrb_pool t ! (elems (pending_recv_buffs t) ! (pick env mod length (elems (pending_recv_buffs t)))))),
      t\<lparr>pending_recv_buffs := snd (pop_with_timed_wait (pending_recv_buffs t) (pick env)),
        mrb_pool := (mrb_pool t)
          [elems (pending_recv_buffs t) ! (pick env mod length (elems (pending_recv_buffs t))) :=
             (mrb_pool t ! (elems (pending_recv_buffs t) ! (pick env mod length (elems (pending_recv_buffs t)))))
               \<lparr>mrb_len := recv_second env\<rparr>]\<rparr>,
      [Pop_with_timed_wait timeout, Recv (recv_frame_size t),
       Wait_for_recv_ready timeout, Recv (recv_frame_size t)])"
  using popped no_data ready
  by (simp add: get_recv_buff_def pop_nonempty Let_def fill_def mrb_get_new_def)

text \<open>
  C2, as amended. When the pop succeeds and the first, non-blocking read yields no data,
  \<^verbatim>\<open>get_recv_buff\<close> waits for readiness with the caller's whole time-out, the value it gave
  to the pop, whatever time the pop took. When readiness is reported it reads exactly once
  more; when the wait times out it reads no more and pushes the buffer back.
\<close>

theorem wait_budget_is_the_whole_timeout:
  assumes popped: "elems (pending_recv_buffs t) \<noteq> []"
    and no_data: "\<not> 0 < sint (recv_first env)"
  shows "snd (snd (get_recv_buff t timeout env)) =
     [Pop_with_timed_wait timeout, Recv (recv_frame_size t), Wait_for_recv_ready timeout] @
     (if recv_ready env then [Recv (recv_frame_size t)]
      else [Push_with_haste (elems (pending_recv_buffs t) ! (pick env mod length (elems (pending_recv_buffs t))))])"
  using popped no_data
  by (simp add: get_recv_buff_def pop_nonempty Let_def fill_def mrb_get_new_def)

text \<open>
  C2 as stated fails: with a time-out of 1 second and a pop that took half a second, the
  wait for readiness is given 1 second, not the remaining half second.
\<close>

theorem wait_budget_is_not_the_remainder:
  "fst (pop_with_timed_wait (pending_recv_buffs example_transport) (pick slow_pop)) = Some 0 \<and>
   \<not> 0 < sint (recv_first slow_pop) \<and>
   pop_took slow_pop = 1 / 2 \<and>
   Wait_for_recv_ready (1 - pop_took slow_pop)
     \<notin> set (snd (snd (get_recv_buff example_transport 1 slow_pop))) \<and>
   Wait_for_recv_ready 1 \<in> set (snd (snd (get_recv_buff example_transport 1 slow_pop)))"
  by (simp add: get_recv_buff_def example_transport_def slow_pop_def pop_with_timed_wait_def
      fill_def mrb_get_new_def)

theorem wait_budget_is_the_whole_timeout_witness:
  "elems (pending_recv_buffs example_transport) \<noteq> [] \<and>
   \<not> 0 < sint (recv_first slow_pop) \<and>
   snd (snd (get_recv_buff example_transport 1 slow_pop)) =
     [Pop_with_timed_wait 1, Recv 1500, Wait_for_recv_ready 1, Recv 1500]"
proof -
  have a: "elems (pending_recv_buffs example_transport) \<noteq> []"
    by (simp add: example_transport_def)
  have b: "\<not> 0 < sint (recv_first slow_pop)" by (simp add: slow_pop_def)
  show ?thesis
    using wait_budget_is_the_whole_timeout [OF a b, of 1] a b
    by (simp add: example_transport_def slow_pop_def)
qed

text \<open>
  C6 as stated fails: a datagram without payload that the first read delivers is taken
  for no data. When nothing else arrives within the time-out, the call returns none.
\<close>

theorem zero_length_first_read_is_not_surfaced:
  "fst (pop_with_timed_wait (pending_recv_buffs example_transport) (pick empty_datagram_first)) = Some 0 \<and>
   recv_first empty_datagram_first = 0 \<and>
   fst (get_recv_buff example_transport 1 empty_datagram_first) = None"
  by (simp add: get_recv_buff_def example_transport_def empty_datagram_first_def pop_with_timed_wait_def
      fill_def mrb_get_new_def)


text \<open>
  C6, as amended. When the second read, after readiness was reported, yields a datagram
  without payload, \<^verbatim>\<open>get_recv_buff\<close> returns the handle of the popped buffer, and the length
  it reports is 0.
\<close>

theorem zero_length_second_read_is_surfaced:
  assumes inv: "recv_inv t"
    and popped: "elems (pending_recv_buffs t) \<noteq> []"
    and no_data: "\<not> 0 < sint (recv_first env)"
    and ready: "recv_ready env"
    and empty: "recv_second env = 0"
  shows "fst (get_recv_buff t timeout env) =
           Some (elems (pending_recv_buffs t) ! (pick env mod length (elems (pending_recv_buffs t)))) \<and>
         mrb_get_size (mrb_pool (fst (snd (get_recv_buff t timeout env))) !
           (elems (pending_recv_buffs t) ! (pick env mod length (elems (pending_recv_buffs t))))) = 0"
proof -
  let ?i = "elems (pending_recv_buffs t) ! (pick env mod length (elems (pending_recv_buffs t)))"
  have i: "?i < length (mrb_pool t)" and mem: "mrb_mem (mrb_pool t ! ?i) = ?i"
    using recv_inv_entry [OF inv popped, of "pick env"] by simp_all
  show ?thesis
    unfolding get_recv_buff_second_read [OF popped no_data ready]
    using i mem empty by (simp add: mrb_get_size_def)
qed

theorem zero_length_second_read_is_surfaced_witness:
  "recv_inv example_transport \<and>
   fst (get_recv_buff example_transport 1 empty_datagram_second) = Some 0 \<and>
   mrb_get_size (mrb_pool (fst (snd (get_recv_buff example_transport 1 empty_datagram_second))) ! 0) = 0"
proof -
  have a: "elems (pending_recv_buffs example_transport) \<noteq> []"
    by (simp add: example_transport_def)
  have b: "\<not> 0 < sint (recv_first empty_datagram_second)"
    by (simp add: empty_datagram_second_def)
  have c: "recv_ready empty_datagram_second"
    by (simp add: empty_datagram_second_def)
  have d: "recv_second empty_datagram_second = 0"
    by (simp add: empty_datagram_second_def)
  have e: "elems (pending_recv_buffs example_transport) !
      (pick empty_datagram_second mod length (elems (pending_recv_buffs example_transport))) = 0"
    by (simp add: example_transport_def empty_datagram_second_def)
  show ?thesis
    using zero_length_second_read_is_surfaced [OF recv_inv_example a b c d, of 1] recv_inv_example
    unfolding e by simp
qed

text \<open>
  C10. When the second read, after readiness was reported, returns a negative value,
  \<^verbatim>\<open>get_recv_buff\<close> still returns the handle of the popped buffer. The length the buffer
  reports is the negative value converted to \<^verbatim>\<open>size_t\<close>, which is that value plus \<open>2 ^ 32\<close>.
  The buffer is not pushed back: the queue is the one the pop left, one entry shorter.
\<close>

theorem failed_second_read_is_handed_out:
  assumes inv: "recv_inv t"
    and popped: "elems (pending_recv_buffs t) \<noteq> []"
    and no_data: "\<not> 0 < sint (recv_first env)"
    and ready: "recv_ready env"
    and failed: "sint (recv_second env) < 0"
  shows "fst (get_recv_buff t timeout env) =
           Some (elems (pending_recv_buffs t) ! (pick env mod length (elems (pending_recv_buffs t)))) \<and>
         mrb_get_size (mrb_pool (fst (snd (get_recv_buff t timeout env))) !
           (elems (pending_recv_buffs t) ! (pick env mod length (elems (pending_recv_buffs t)))))
           = recv_second env \<and>
         int (unat (mrb_get_size (mrb_pool (fst (snd (get_recv_buff t timeout env))) !
           (elems (pending_recv_buffs t) ! (pick env mod length (elems (pending_recv_buffs t)))))))
           = sint (recv_second env) + 2 ^ 32 \<and>
         pending_recv_buffs (fst (snd (get_recv_buff t timeout env)))
           = snd (pop_with_timed_wait (pending_recv_buffs t) (pick env)) \<and>
         Suc (length (elems (pending_recv_buffs (fst (snd (get_recv_buff t timeout env))))))
           = length (elems (pending_recv_buffs t)) \<and>
         Push_with_haste (elems (pending_recv_buffs t) ! (pick env mod length (elems (pending_recv_buffs t))))
           \<notin> set (snd (snd (get_recv_buff t timeout env)))"
proof -
  let ?j = "pick env mod length (elems (pending_recv_buffs t))"
  let ?i = "elems (pending_recv_buffs t) ! ?j"
  have j: "?j < length (elems (pending_recv_buffs t))" using popped by simp
  have i: "?i < length (mrb_pool t)" and mem: "mrb_mem (mrb_pool t ! ?i) = ?i"
    using recv_inv_entry [OF inv popped, of "pick env"] by simp_all
  have len: "Suc (length (elems (snd (pop_with_timed_wait (pending_recv_buffs t) (pick env)))))
      = length (elems (pending_recv_buffs t))"
    using length_without_nth [OF j] popped by (simp add: pop_nonempty)
  show ?thesis
    unfolding get_recv_buff_second_read [OF popped no_data ready]
    using i mem len negative_as_unsigned [OF failed] by (simp add: mrb_get_size_def)
qed

theorem failed_second_read_is_handed_out_witness:
  "recv_inv example_transport \<and>
   sint (recv_second failing_second) < 0 \<and>
   fst (get_recv_buff example_transport 1 failing_second) = Some 0 \<and>
   mrb_get_size (mrb_pool (fst (snd (get_recv_buff example_transport 1 failing_second))) ! 0)
     = - 1 \<and>
   int (unat (mrb_get_size (mrb_pool (fst (snd (get_recv_buff example_transport 1 failing_second))) ! 0)))
     = 4294967295 \<and>
   elems (pending_recv_buffs (fst (snd (get_recv_buff example_transport 1 failing_second)))) = [1, 2, 3]"
proof -
  have a: "elems (pending_recv_buffs example_transport) \<noteq> []"
    by (simp add: example_transport_def)
  have b: "\<not> 0 < sint (recv_first failing_second)"
    by (simp add: failing_second_def)
  have c: "recv_ready failing_second"
    by (simp add: failing_second_def)
  have d: "sint (recv_second failing_second) < 0"
    by (simp add: failing_second_def)
  have e: "elems (pending_recv_buffs example_transport) !
      (pick failing_second mod length (elems (pending_recv_buffs example_transport))) = 0"
    by (simp add: example_transport_def failing_second_def)
  have f: "recv_second failing_second = - 1"
    by (simp add: failing_second_def)
  have g: "elems (snd (pop_with_timed_wait (pending_recv_buffs example_transport) (pick failing_second)))
      = [1, 2, 3]"
    by (simp add: example_transport_def failing_second_def pop_with_timed_wait_def)
  show ?thesis
    using failed_second_read_is_handed_out [OF recv_inv_example a b c d, of 1] recv_inv_example d
    by (simp add: e f g unsigned_minus_1_eq_mask mask_eq_exp_minus_1)
qed

section \<open>The send buffer and the constructor\<close>

lemma unat_inc:
  fixes i m :: "32 word"
  assumes "i < m"
  shows "unat (i + 1) = Suc (unat i)"
  using assms by unat_arith

lemma msb_get_new_timeout:
  "WSAWaitForMultipleEvents (hEvent b) during = WSA_WAIT_TIMEOUT \<Longrightarrow>
   msb_get_new b during index = (None, b, index)"
  by (simp add: msb_get_new_def)

lemma msb_get_new_success:
  "WSAWaitForMultipleEvents (hEvent b) during \<noteq> WSA_WAIT_TIMEOUT \<Longrightarrow>
   msb_get_new b during index =
     (Some (wsa_buf b), b\<lparr>hEvent := False, committed := False, wsa_len := frame_size b\<rparr>, index + 1)"
  by (simp add: msb_get_new_def)

lemma wait_signalled: "WSAWaitForMultipleEvents True during = WSA_WAIT_EVENT_0"
  by (simp add: WSAWaitForMultipleEvents_def)

text \<open>
  C5. When the wait of \<^verbatim>\<open>get_new\<close> times out, the send buffer returns none and is left as
  it was, committed flag and length included. Otherwise it returns its handle, clears the
  committed flag and sets the length to the frame size. So a buffer committed with a
  payload of length \<open>l\<close> reports \<open>l\<close> while the transmission is under way, and the frame
  size once its completion has been observed by \<^verbatim>\<open>get_new\<close>.
\<close>

theorem acquire_resets_length:
  "(WSAWaitForMultipleEvents (hEvent b) during = WSA_WAIT_TIMEOUT \<longrightarrow>
      msb_get_new b during index = (None, b, index)) \<and>
   (WSAWaitForMultipleEvents (hEvent b) during \<noteq> WSA_WAIT_TIMEOUT \<longrightarrow>
      fst (msb_get_new b during index) = Some (wsa_buf b) \<and>
      \<not> committed (fst (snd (msb_get_new b during index))) \<and>
      msb_get_size (fst (snd (msb_get_new b during index))) = frame_size b \<and>
      frame_size (fst (snd (msb_get_new b during index))) = frame_size b) \<and>
   (\<not> committed b \<longrightarrow>
      committed (send_completes (fst (msb_commit b l))) \<and>
      msb_get_size (send_completes (fst (msb_commit b l))) = l \<and>
      fst (msb_get_new (send_completes (fst (msb_commit b l))) during index) = Some (wsa_buf b) \<and>
      msb_get_size (fst (snd (msb_get_new (send_completes (fst (msb_commit b l))) during index)))
        = frame_size b)"
  by (simp add: msb_get_new_def msb_get_size_def msb_commit_def send_completes_def
      WSAWaitForMultipleEvents_def Let_def)

theorem acquire_resets_length_witness:
  "\<not> committed acquired \<and>
   msb_get_size (send_completes (fst (msb_commit acquired 100))) = 100 \<and>
   msb_get_size (fst (snd (msb_get_new (send_completes (fst (msb_commit acquired 100))) WSA_WAIT_TIMEOUT 0)))
     = 1500 \<and>
   WSAWaitForMultipleEvents (hEvent (fst (msb_commit acquired 100))) WSA_WAIT_TIMEOUT = WSA_WAIT_TIMEOUT \<and>
   msb_get_new (fst (msb_commit acquired 100)) WSA_WAIT_TIMEOUT 0 = (None, fst (msb_commit acquired 100), 0)"
proof -
  have a: "\<not> committed acquired" by (simp add: acquired_def)
  have b: "WSAWaitForMultipleEvents (hEvent (fst (msb_commit acquired 100))) WSA_WAIT_TIMEOUT = WSA_WAIT_TIMEOUT"
    by (simp add: acquired_def msb_commit_def WSAWaitForMultipleEvents_def)
  have c: "frame_size acquired = 1500" by (simp add: acquired_def)
  show ?thesis
    using acquire_resets_length [of acquired WSA_WAIT_TIMEOUT 0 100]
      acquire_resets_length [of "fst (msb_commit acquired 100)" WSA_WAIT_TIMEOUT 0 100] a b c
    by simp
qed

lemma alloc_msbs_Inr:
  "alloc_msbs sock fs ev is pool = Inr pool' \<Longrightarrow>
   pool' = pool @ map (\<lambda>i. \<lparr>msb_sock_fd = sock, frame_size = fs, committed = True, hEvent = True,
                               wsa_buf = i, wsa_len = 0\<rparr>) is"
proof (induction "is" arbitrary: pool)
  case Nil
  then show ?case by simp
next
  case (Cons i "is")
  show ?case
  proof (cases "ev i")
    case True
    with Cons.prems have "alloc_msbs sock fs ev is
        (pool @ [\<lparr>msb_sock_fd = sock, frame_size = fs, committed = True, hEvent = True,
                  wsa_buf = i, wsa_len = 0\<rparr>]) = Inr pool'"
      by (simp add: udp_zero_copy_asio_msb_def msb_commit_def)
    from Cons.IH [OF this] show ?thesis by simp
  next
    case False
    with Cons.prems show ?thesis
      by (simp add: udp_zero_copy_asio_msb_def)
  qed
qed

lemma alloc_msbs_Inl:
  "alloc_msbs sock fs ev is pool = Inl e \<Longrightarrow>
   e = assertion_error ''_overlapped.hEvent != WSA_INVALID_EVENT''"
proof (induction "is" arbitrary: pool)
  case Nil
  then show ?case by simp
next
  case (Cons i "is")
  then show ?case
    by (cases "ev i") (auto simp add: udp_zero_copy_asio_msb_def msb_commit_def)
qed

lemma alloc_msbs_ok:
  "\<forall>i \<in> set is. ev i \<Longrightarrow> \<not> isl (alloc_msbs sock fs ev is pool)"
  by (induction "is" arbitrary: pool) (simp_all add: udp_zero_copy_asio_msb_def)

lemma alloc_mrbs_pool:
  "fst (alloc_mrbs is (pool, q)) = pool @ map udp_zero_copy_asio_mrb is"
  by (induction "is" arbitrary: pool q) simp_all

lemma alloc_mrbs_queue:
  "length (elems q) + length is \<le> capacity q \<Longrightarrow>
   snd (alloc_mrbs is (pool, q)) = q\<lparr>elems := elems q @ is\<rparr>"
proof (induction "is" arbitrary: pool q)
  case Nil
  then show ?case by simp
next
  case (Cons i "is")
  have push: "push_with_haste q i = q\<lparr>elems := elems q @ [i]\<rparr>"
    using Cons.prems by (simp add: push_with_haste_def)
  have "length (elems (q\<lparr>elems := elems q @ [i]\<rparr>)) + length is \<le> capacity (q\<lparr>elems := elems q @ [i]\<rparr>)"
    using Cons.prems by simp
  from Cons.IH [OF this] show ?case
    by (simp add: push)
qed

lemma make_Inr:
  assumes "udp_zero_copy_make max_wait h env = Inr t"
  shows "recv_frame_size t = hint_recv_frame_size h \<and>
     num_recv_frames t = hint_num_recv_frames h \<and>
     send_frame_size t = hint_send_frame_size h \<and>
     num_send_frames t = hint_num_send_frames h \<and>
     msb_pool t = map (\<lambda>i. \<lparr>msb_sock_fd = sock_fd t, frame_size = hint_send_frame_size h,
                              committed = True, hEvent = True, wsa_buf = i, wsa_len = 0\<rparr>)
                   [0 ..< unat (hint_num_send_frames h)] \<and>
     mrb_pool t = map udp_zero_copy_asio_mrb [0 ..< unat (hint_num_recv_frames h)] \<and>
     pending_recv_buffs t = \<lparr>capacity = unat (hint_num_recv_frames h),
                            elems = [0 ..< unat (hint_num_recv_frames h)]\<rparr> \<and>
     next_send_buff_index t = 0 \<and> wsa_socket env = Some (sock_fd t)"
proof -
  let ?q0 = "\<lparr>capacity = unat (hint_num_recv_frames h), elems = []\<rparr> :: nat bounded_buffer"
  let ?rs = "[0 ..< unat (hint_num_recv_frames h)]"
  have q: "snd (alloc_mrbs ?rs ([], ?q0)) = ?q0\<lparr>elems := elems ?q0 @ ?rs\<rparr>"
    by (rule alloc_mrbs_queue) simp
  have p: "fst (alloc_mrbs ?rs ([], ?q0)) = [] @ map udp_zero_copy_asio_mrb ?rs"
    by (rule alloc_mrbs_pool)
  obtain fd msbs where fd: "wsa_socket env = Some fd"
    and msbs: "alloc_msbs fd (hint_send_frame_size h) (create_event_ok env)
                 [0 ..< unat (hint_num_send_frames h)] [] = Inr msbs"
    and t: "t = \<lparr>recv_frame_size = hint_recv_frame_size h,
                 num_recv_frames = hint_num_recv_frames h,
                 send_frame_size = hint_send_frame_size h,
                 num_send_frames = hint_num_send_frames h,
                 msb_pool = msbs,
                 mrb_pool = fst (alloc_mrbs ?rs ([], ?q0)),
                 pending_recv_buffs = snd (alloc_mrbs ?rs ([], ?q0)),
                 next_send_buff_index = 0, sock_fd = fd\<rparr>"
    using assms
    by (auto simp add: udp_zero_copy_make_def split_beta Let_def
        split: if_splits option.splits sum.splits)
  from alloc_msbs_Inr [OF msbs] show ?thesis
    unfolding t q p using fd by simp
qed

lemma make_establishes_recv_inv:
  assumes "udp_zero_copy_make max_wait h env = Inr t"
  shows "recv_inv t"
  using make_Inr [OF assms]
  by (simp add: recv_inv_def list_all_iff udp_zero_copy_asio_mrb_def)

lemma make_establishes_send_inv:
  assumes "udp_zero_copy_make max_wait h env = Inr t" and "0 < hint_num_send_frames h"
  shows "send_inv t"
  using make_Inr [OF assms(1)] assms(2)
  by (simp add: send_inv_def list_all_iff)

lemma make_send_buffers:
  assumes "udp_zero_copy_make max_wait h env = Inr t"
  shows "length (msb_pool t) = unat (num_send_frames t) \<and>
         list_all (\<lambda>b. committed b \<and> msb_get_size b = 0 \<and> hEvent b) (msb_pool t)"
  using make_Inr [OF assms]
  by (simp add: list_all_iff msb_get_size_def)

text \<open>
  C9. When the number of send frames exceeds \<^verbatim>\<open>WSA_MAXIMUM_WAIT_EVENTS\<close>, the construction
  ends with an error and no transport: with the assertion error of the check, once the
  pools were allocated. When the number is within that bound, the construction never ends
  with the assertion error of the check, and with collaborators that succeed it makes a
  transport.
\<close>

theorem too_many_send_frames:
  "(max_wait < hint_num_send_frames h \<longrightarrow>
      isl (udp_zero_copy_make max_wait h env) \<and>
      (pools_ok env \<longrightarrow>
         udp_zero_copy_make max_wait h env =
           Inl (assertion_error ''_num_send_frames <= WSA_MAXIMUM_WAIT_EVENTS''))) \<and>
   (hint_num_send_frames h \<le> max_wait \<longrightarrow>
      udp_zero_copy_make max_wait h env \<noteq>
        Inl (assertion_error ''_num_send_frames <= WSA_MAXIMUM_WAIT_EVENTS'') \<and>
      (pools_ok env \<and> resolve_ok env \<and> wsa_socket env \<noteq> None \<and> connect_ok env \<and>
       (\<forall>i. create_event_ok env i) \<longrightarrow> \<not> isl (udp_zero_copy_make max_wait h env)))"
proof (intro conjI impI)
  assume "max_wait < hint_num_send_frames h"
  then have n: "\<not> hint_num_send_frames h \<le> max_wait" by simp
  show "isl (udp_zero_copy_make max_wait h env)"
    using n by (simp add: udp_zero_copy_make_def)
  show "udp_zero_copy_make max_wait h env =
      Inl (assertion_error ''_num_send_frames <= WSA_MAXIMUM_WAIT_EVENTS'')" if "pools_ok env"
    using n that by (simp add: udp_zero_copy_make_def)
next
  assume le: "hint_num_send_frames h \<le> max_wait"
  show "udp_zero_copy_make max_wait h env \<noteq>
      Inl (assertion_error ''_num_send_frames <= WSA_MAXIMUM_WAIT_EVENTS'')"
  proof
    assume bad: "udp_zero_copy_make max_wait h env =
      Inl (assertion_error ''_num_send_frames <= WSA_MAXIMUM_WAIT_EVENTS'')"
    then obtain fd where "alloc_msbs fd (hint_send_frame_size h) (create_event_ok env)
        [0 ..< unat (hint_num_send_frames h)] [] =
          Inl (assertion_error ''_num_send_frames <= WSA_MAXIMUM_WAIT_EVENTS'')"
      using le
      by (auto simp add: udp_zero_copy_make_def split_beta Let_def
          split: if_splits option.splits sum.splits)
    from alloc_msbs_Inl [OF this] show False by simp
  qed
next
  assume le: "hint_num_send_frames h \<le> max_wait"
    and ok: "pools_ok env \<and> resolve_ok env \<and> wsa_socket env \<noteq> None \<and> connect_ok env \<and>
       (\<forall>i. create_event_ok env i)"
  then obtain fd where fd: "wsa_socket env = Some fd" by auto
  have "\<not> isl (alloc_msbs fd (hint_send_frame_size h) (create_event_ok env)
        [0 ..< unat (hint_num_send_frames h)] [])"
    using ok by (intro alloc_msbs_ok) simp
  then show "\<not> isl (udp_zero_copy_make max_wait h env)"
    using le ok fd
    by (auto simp add: udp_zero_copy_make_def split_beta Let_def split: sum.splits)
qed


theorem too_many_send_frames_witness:
  "udp_zero_copy_make 1 example_hints cooperative =
     Inl (assertion_error ''_num_send_frames <= WSA_MAXIMUM_WAIT_EVENTS'') \<and>
   udp_zero_copy_make 64 example_hints cooperative \<noteq>
     Inl (assertion_error ''_num_send_frames <= WSA_MAXIMUM_WAIT_EVENTS'') \<and>
   \<not> isl (udp_zero_copy_make 64 example_hints cooperative)"
proof -
  have a: "(1 :: size_t) < hint_num_send_frames example_hints"
    by (simp add: example_hints_def)
  have b: "hint_num_send_frames example_hints \<le> (64 :: size_t)"
    by (simp add: example_hints_def)
  have c: "pools_ok cooperative \<and> resolve_ok cooperative \<and> wsa_socket cooperative \<noteq> None \<and>
      connect_ok cooperative \<and> (\<forall>i. create_event_ok cooperative i)"
    by (simp add: cooperative_def)
  show ?thesis
    using too_many_send_frames [where max_wait = 1 and h = example_hints and env = cooperative]
      too_many_send_frames [where max_wait = 64 and h = example_hints and env = cooperative] a b c
    by simp
qed

text \<open>
  C7. \<^verbatim>\<open>commit\<close> does nothing on a buffer that is committed. On another buffer it sets the
  committed flag and the length; for the length 0 it signals the event and submits no
  transmission, for another length it submits the transmission. The constructor leaves
  every send buffer committed, with length 0 and a signalled event, without a
  transmission, so the first \<^verbatim>\<open>get_new\<close> on it succeeds whatever the wait would have
  answered; this holds for every send buffer of a transport that \<^verbatim>\<open>make\<close> returns.
\<close>

theorem commit_once:
  "(committed b \<longrightarrow> msb_commit b l = (b, None)) \<and>
   (\<not> committed b \<longrightarrow>
      committed (fst (msb_commit b l)) \<and> wsa_len (fst (msb_commit b l)) = l \<and>
      (l = 0 \<longrightarrow> hEvent (fst (msb_commit b l)) \<and> snd (msb_commit b l) = None) \<and>
      (l \<noteq> 0 \<longrightarrow> hEvent (fst (msb_commit b l)) = hEvent b \<and>
         snd (msb_commit b l) = Some (WSASend (msb_sock_fd b) (wsa_buf b) l))) \<and>
   udp_zero_copy_asio_msb m sock fs True =
     Inr \<lparr>msb_sock_fd = sock, frame_size = fs, committed = True, hEvent = True,
          wsa_buf = m, wsa_len = 0\<rparr> \<and>
   (udp_zero_copy_asio_msb m sock fs ok = Inr b0 \<longrightarrow>
      committed b0 \<and> msb_get_size b0 = 0 \<and> hEvent b0 \<and>
      fst (msb_get_new b0 during index) = Some m \<and>
      msb_get_size (fst (snd (msb_get_new b0 during index))) = fs) \<and>
   (udp_zero_copy_make max_wait h env = Inr t \<longrightarrow>
      length (msb_pool t) = unat (num_send_frames t) \<and>
      list_all (\<lambda>b. committed b \<and> msb_get_size b = 0 \<and> hEvent b) (msb_pool t))"
proof -
  have one: "committed b \<longrightarrow> msb_commit b l = (b, None)"
    by (simp add: msb_commit_def)
  have two: "\<not> committed b \<longrightarrow>
      committed (fst (msb_commit b l)) \<and> wsa_len (fst (msb_commit b l)) = l \<and>
      (l = 0 \<longrightarrow> hEvent (fst (msb_commit b l)) \<and> snd (msb_commit b l) = None) \<and>
      (l \<noteq> 0 \<longrightarrow> hEvent (fst (msb_commit b l)) = hEvent b \<and>
         snd (msb_commit b l) = Some (WSASend (msb_sock_fd b) (wsa_buf b) l))"
    by (simp add: msb_commit_def Let_def)
  have three: "udp_zero_copy_asio_msb m sock fs True =
     Inr \<lparr>msb_sock_fd = sock, frame_size = fs, committed = True, hEvent = True,
          wsa_buf = m, wsa_len = 0\<rparr>"
    by (simp add: udp_zero_copy_asio_msb_def msb_commit_def)
  have four: "udp_zero_copy_asio_msb m sock fs ok = Inr b0 \<longrightarrow>
      committed b0 \<and> msb_get_size b0 = 0 \<and> hEvent b0 \<and>
      fst (msb_get_new b0 during index) = Some m \<and>
      msb_get_size (fst (snd (msb_get_new b0 during index))) = fs"
    by (auto simp add: msb_commit_def udp_zero_copy_asio_msb_def msb_get_new_def msb_get_size_def
        WSAWaitForMultipleEvents_def split: if_splits)
  have five: "udp_zero_copy_make max_wait h env = Inr t \<longrightarrow>
      length (msb_pool t) = unat (num_send_frames t) \<and>
      list_all (\<lambda>b. committed b \<and> msb_get_size b = 0 \<and> hEvent b) (msb_pool t)"
    using make_send_buffers by blast
  from one two three four five show ?thesis by blast
qed

theorem commit_once_witness:
  "committed (msb_pool example_transport ! 0) \<and>
   msb_commit (msb_pool example_transport ! 0) 100 = (msb_pool example_transport ! 0, None) \<and>
   \<not> committed acquired \<and>
   snd (msb_commit acquired 100) = Some (WSASend 3 0 100) \<and>
   snd (msb_commit acquired 0) = None \<and> hEvent (fst (msb_commit acquired 0)) \<and>
   udp_zero_copy_asio_msb 0 3 1500 True = Inr (msb_pool example_transport ! 0) \<and>
   fst (msb_get_new (msb_pool example_transport ! 0) WSA_WAIT_TIMEOUT 0) = Some 0 \<and>
   udp_zero_copy_make 64 example_hints cooperative = Inr example_transport \<and>
   list_all (\<lambda>b. committed b \<and> msb_get_size b = 0 \<and> hEvent b) (msb_pool example_transport)"
proof -
  have a: "committed (msb_pool example_transport ! 0)"
    by (simp add: example_transport_def)
  have b: "\<not> committed acquired" "msb_sock_fd acquired = 3" "wsa_buf acquired = 0"
    by (simp_all add: acquired_def)
  have c: "msb_pool example_transport ! 0 =
      \<lparr>msb_sock_fd = 3, frame_size = 1500, committed = True, hEvent = True,
       wsa_buf = 0, wsa_len = 0\<rparr>"
    by (simp add: example_transport_def)
  have d: "udp_zero_copy_asio_msb 0 3 1500 True = Inr (msb_pool example_transport ! 0)"
    using commit_once [where m = 0 and sock = 3 and fs = 1500] c by simp
  show ?thesis
    using commit_once [where b = "msb_pool example_transport ! 0" and l = 100 and m = 0
        and sock = 3 and fs = 1500 and ok = True and ?b0.0 = "msb_pool example_transport ! 0"
        and during = WSA_WAIT_TIMEOUT and index = 0 and max_wait = 64 and h = example_hints
        and env = cooperative and t = example_transport]
      commit_once [where b = acquired and l = 100 and m = 0 and sock = 3 and fs = 1500
        and ok = False and max_wait = 0 and h = example_hints and env = cooperative]
      commit_once [where b = acquired and l = 0 and m = 0 and sock = 3 and fs = 1500
        and ok = False and max_wait = 0 and h = example_hints and env = cooperative]
      a b d make_example
    by simp
qed

section \<open>The rotating index of the send buffers\<close>

lemma send_invD:
  assumes "send_inv t"
  shows "length (msb_pool t) = unat (num_send_frames t)"
    and "0 < num_send_frames t"
    and "next_send_buff_index t \<le> num_send_frames t"
    and "list_all (\<lambda>i. wsa_buf (msb_pool t ! i) = i) [0 ..< length (msb_pool t)]"
  using assms unfolding send_inv_def by blast+

lemma wrap_index_fields:
  "num_send_frames (wrap_index t) = num_send_frames t \<and>
   msb_pool (wrap_index t) = msb_pool t \<and>
   next_send_buff_index (wrap_index t) =
     (if next_send_buff_index t = num_send_frames t then 0 else next_send_buff_index t)"
  by (simp add: wrap_index_def)

lemma wrap_index_below:
  assumes inv: "send_inv t"
  shows "next_send_buff_index (wrap_index t) < num_send_frames t \<and>
         unat (next_send_buff_index (wrap_index t))
           = unat (next_send_buff_index t) mod unat (num_send_frames t) \<and>
         unat (next_send_buff_index (wrap_index t)) < length (msb_pool t)"
proof (cases "next_send_buff_index t = num_send_frames t")
  case True
  have "0 < num_send_frames t" using inv by (simp add: send_inv_def)
  moreover from this have "0 < unat (num_send_frames t)" by (simp add: word_less_nat_alt)
  ultimately show ?thesis
    using True inv by (simp add: wrap_index_def send_inv_def)
next
  case False
  have "next_send_buff_index t \<le> num_send_frames t" using inv by (simp add: send_inv_def)
  with False have lt: "next_send_buff_index t < num_send_frames t" by simp
  then have "unat (next_send_buff_index t) < unat (num_send_frames t)"
    by (simp add: word_less_nat_alt)
  then show ?thesis
    using False lt inv by (simp add: wrap_index_def send_inv_def)
qed

lemma wrap_index_idem:
  assumes inv: "send_inv t"
  shows "wrap_index (wrap_index t) = wrap_index t"
proof -
  have lt: "next_send_buff_index (wrap_index t) < num_send_frames t"
    using wrap_index_below [OF inv] by blast
  have n: "num_send_frames (wrap_index t) = num_send_frames t"
    by (simp add: wrap_index_def)
  from lt have "next_send_buff_index (wrap_index t) \<noteq> num_send_frames (wrap_index t)"
    unfolding n by auto
  then show ?thesis
    by (simp add: wrap_index_def [of "wrap_index t"])
qed

lemma get_send_buff_timeout:
  assumes inv: "send_inv t"
    and timeout: "WSAWaitForMultipleEvents
        (hEvent (msb_pool t ! unat (next_send_buff_index (wrap_index t)))) during = WSA_WAIT_TIMEOUT"
  shows "get_send_buff t during = Inr (None, wrap_index t)"
proof -
  have i: "unat (next_send_buff_index (wrap_index t)) < length (msb_pool (wrap_index t))"
    using wrap_index_below [OF inv] by (simp add: wrap_index_fields)
  show ?thesis
    using i timeout
    by (simp add: get_send_buff_def Let_def msb_get_new_timeout wrap_index_fields)
qed

lemma get_send_buff_success:
  assumes inv: "send_inv t"
    and success: "WSAWaitForMultipleEvents
        (hEvent (msb_pool t ! unat (next_send_buff_index (wrap_index t)))) during \<noteq> WSA_WAIT_TIMEOUT"
  shows "get_send_buff t during =
     Inr (Some (unat (next_send_buff_index (wrap_index t))),
          (wrap_index t)
            \<lparr>msb_pool := (msb_pool t)[unat (next_send_buff_index (wrap_index t)) :=
               (msb_pool t ! unat (next_send_buff_index (wrap_index t)))
                 \<lparr>hEvent := False, committed := False,
                  wsa_len := frame_size (msb_pool t ! unat (next_send_buff_index (wrap_index t)))\<rparr>],
             next_send_buff_index := next_send_buff_index (wrap_index t) + 1\<rparr>)"
proof -
  let ?i = "unat (next_send_buff_index (wrap_index t))"
  have i: "?i < length (msb_pool t)"
    using wrap_index_below [OF inv] by simp
  have "\<forall>k \<in> set [0 ..< length (msb_pool t)]. wsa_buf (msb_pool t ! k) = k"
    using inv by (simp add: send_inv_def list_all_iff)
  with i have buf: "wsa_buf (msb_pool t ! ?i) = ?i" by simp
  show ?thesis
    using i success buf
    by (simp add: get_send_buff_def Let_def msb_get_new_success wrap_index_fields)
qed

lemma wsa_buf_update:
  assumes "wsa_buf b = wsa_buf (xs ! i)" and "j < length xs"
  shows "wsa_buf (xs[i := b] ! j) = wsa_buf (xs ! j)"
  using assms by (cases "i = j") simp_all

lemma bufs_update:
  assumes "list_all (\<lambda>k. wsa_buf (xs ! k) = k) [0 ..< length xs]"
    and "wsa_buf b = wsa_buf (xs ! i)"
  shows "list_all (\<lambda>k. wsa_buf (xs[i := b] ! k) = k) [0 ..< length (xs[i := b])]"
  using assms by (simp add: list_all_iff wsa_buf_update)

lemma send_inv_update:
  assumes inv: "send_inv t"
    and buf: "wsa_buf b = wsa_buf (msb_pool t ! i)"
    and le: "index \<le> num_send_frames t"
  shows "send_inv (t\<lparr>msb_pool := (msb_pool t)[i := b], next_send_buff_index := index\<rparr>)"
proof -
  have "list_all (\<lambda>k. wsa_buf ((msb_pool t)[i := b] ! k) = k) [0 ..< length ((msb_pool t)[i := b])]"
    by (rule bufs_update [OF send_invD(4) [OF inv] buf])
  moreover have "length ((msb_pool t)[i := b]) = unat (num_send_frames t)"
    using send_invD(1) [OF inv] by simp
  ultimately show ?thesis
    using le send_invD(2) [OF inv] unfolding send_inv_def by simp
qed

lemma send_inv_wrap: "send_inv t \<Longrightarrow> send_inv (wrap_index t)"
  by (auto simp add: send_inv_def wrap_index_def)

lemma send_inv_after_success:
  assumes inv: "send_inv t"
  shows "send_inv ((wrap_index t)
            \<lparr>msb_pool := (msb_pool t)[unat (next_send_buff_index (wrap_index t)) :=
               (msb_pool t ! unat (next_send_buff_index (wrap_index t)))
                 \<lparr>hEvent := False, committed := False,
                  wsa_len := frame_size (msb_pool t ! unat (next_send_buff_index (wrap_index t)))\<rparr>],
             next_send_buff_index := next_send_buff_index (wrap_index t) + 1\<rparr>)"
proof -
  let ?t = "wrap_index t"
  let ?i = "next_send_buff_index ?t"
  have pool: "msb_pool ?t = msb_pool t" and num: "num_send_frames ?t = num_send_frames t"
    by (simp_all add: wrap_index_fields)
  have lt: "?i < num_send_frames t" using wrap_index_below [OF inv] by blast
  then have le: "?i + 1 \<le> num_send_frames ?t" unfolding num by (rule inc_le)
  have "send_inv (?t\<lparr>msb_pool := (msb_pool ?t)[unat ?i :=
               (msb_pool ?t ! unat ?i)
                 \<lparr>hEvent := False, committed := False,
                  wsa_len := frame_size (msb_pool ?t ! unat ?i)\<rparr>],
             next_send_buff_index := ?i + 1\<rparr>)"
    by (rule send_inv_update [OF send_inv_wrap [OF inv] _ le]) simp
  then show ?thesis unfolding pool .
qed

lemma send_inv_commit:
  assumes inv: "send_inv t"
  shows "send_inv (commit_send_buff t i l)"
proof -
  have "next_send_buff_index t \<le> num_send_frames t"
    by (rule send_invD(3) [OF inv])
  moreover have "wsa_buf (fst (msb_commit (msb_pool t ! i) l)) = wsa_buf (msb_pool t ! i)"
    by (simp add: msb_commit_def Let_def)
  ultimately have "send_inv (t\<lparr>msb_pool := (msb_pool t)[i := fst (msb_commit (msb_pool t ! i) l)],
      next_send_buff_index := next_send_buff_index t\<rparr>)"
    using inv by (intro send_inv_update)
  then show ?thesis by (simp add: commit_send_buff_def)
qed

lemma send_inv_complete:
  assumes inv: "send_inv t"
  shows "send_inv (complete_send_buff t i)"
proof -
  have "next_send_buff_index t \<le> num_send_frames t"
    by (rule send_invD(3) [OF inv])
  moreover have "wsa_buf (send_completes (msb_pool t ! i)) = wsa_buf (msb_pool t ! i)"
    by (simp add: send_completes_def)
  ultimately have "send_inv (t\<lparr>msb_pool := (msb_pool t)[i := send_completes (msb_pool t ! i)],
      next_send_buff_index := next_send_buff_index t\<rparr>)"
    using inv by (intro send_inv_update)
  then show ?thesis by (simp add: complete_send_buff_def)
qed

lemma commit_keeps_index:
  "next_send_buff_index (commit_send_buff t i l) = next_send_buff_index t \<and>
   num_send_frames (commit_send_buff t i l) = num_send_frames t"
  by (simp add: commit_send_buff_def)

lemma complete_keeps_index:
  "next_send_buff_index (complete_send_buff t i) = next_send_buff_index t \<and>
   num_send_frames (complete_send_buff t i) = num_send_frames t"
  by (simp add: complete_send_buff_def)


lemma round_robin_skip:
  fixes a n :: nat
  assumes "hs = map (\<lambda>k. (a mod n + k) mod n) [0 ..< length hs]"
  shows "hs = map (\<lambda>k. (a + k) mod n) [0 ..< length hs]"
  using assms by (simp add: mod_add_left_eq)

lemma round_robin_cons:
  fixes a n :: nat
  assumes "hs = map (\<lambda>k. (Suc (a mod n) + k) mod n) [0 ..< length hs]"
  shows "a mod n # hs = map (\<lambda>k. (a + k) mod n) [0 ..< length (a mod n # hs)]"
proof -
  have "(Suc (a mod n) + k) mod n = (a + Suc k) mod n" for k
  proof -
    have "(Suc (a mod n) + k) mod n = (a mod n + Suc k) mod n" by simp
    also have "\<dots> = (a + Suc k) mod n" by (rule mod_add_left_eq)
    finally show ?thesis .
  qed
  with assms have "hs = map (\<lambda>k. (a + Suc k) mod n) [0 ..< length hs]" by simp
  then have "a mod n # hs = (a + 0) mod n # map (\<lambda>k. (a + Suc k) mod n) [0 ..< length hs]"
    by simp
  also have "\<dots> = map (\<lambda>k. (a + k) mod n) [0 ..< Suc (length hs)]"
    by (simp only: map_upt_Suc)
  finally show ?thesis by simp
qed

lemma send_run_round_robin:
  assumes "send_inv t"
  shows "\<exists>rs t'. send_run t acts = Inr (rs, t') \<and> send_inv t' \<and>
           handed_out rs = map (\<lambda>k. (unat (next_send_buff_index t) + k) mod unat (num_send_frames t))
                             [0 ..< length (handed_out rs)]"
  using assms
proof (induction acts arbitrary: t)
  case Nil
  then show ?case by simp
next
  case (Cons act acts)
  note inv = Cons.prems
  show ?case
  proof (cases act)
    case (Get_send_buff during)
    let ?t = "wrap_index t"
    let ?i = "unat (next_send_buff_index ?t)"
    have i: "?i = unat (next_send_buff_index t) mod unat (num_send_frames t)"
      and lt: "next_send_buff_index ?t < num_send_frames t"
      using wrap_index_below [OF inv] by simp_all
    show ?thesis
    proof (cases "WSAWaitForMultipleEvents (hEvent (msb_pool t ! ?i)) during = WSA_WAIT_TIMEOUT")
      case True
      have step: "get_send_buff t during = Inr (None, ?t)"
        by (rule get_send_buff_timeout [OF inv True])
      from Cons.IH [OF send_inv_wrap [OF inv]] obtain rs t' where
        run: "send_run ?t acts = Inr (rs, t')" and inv': "send_inv t'"
        and hs: "handed_out rs = map (\<lambda>k. (?i + k) mod unat (num_send_frames ?t))
                                   [0 ..< length (handed_out rs)]"
        by blast
      have "handed_out rs = map (\<lambda>k. (unat (next_send_buff_index t) + k) mod unat (num_send_frames t))
                                   [0 ..< length (handed_out rs)]"
        using hs unfolding i by (simp add: wrap_index_fields mod_add_left_eq)
      then show ?thesis
        using Get_send_buff step run inv' by simp
    next
      case False
      let ?t1 = "?t\<lparr>msb_pool := (msb_pool t)[?i :=
               (msb_pool t ! ?i)\<lparr>hEvent := False, committed := False,
                  wsa_len := frame_size (msb_pool t ! ?i)\<rparr>],
             next_send_buff_index := next_send_buff_index ?t + 1\<rparr>"
      have step: "get_send_buff t during = Inr (Some ?i, ?t1)"
        by (rule get_send_buff_success [OF inv False])
      have inv1: "send_inv ?t1"
        by (rule send_inv_after_success [OF inv])
      have next1: "unat (next_send_buff_index ?t1) = Suc ?i"
        using unat_inc [OF lt] by simp
      have num1: "num_send_frames ?t1 = num_send_frames t"
        by (simp add: wrap_index_fields)
      from Cons.IH [OF inv1] obtain rs t' where
        run: "send_run ?t1 acts = Inr (rs, t')" and inv': "send_inv t'"
        and hs: "handed_out rs = map (\<lambda>k. (unat (next_send_buff_index ?t1) + k) mod unat (num_send_frames ?t1))
                                   [0 ..< length (handed_out rs)]"
        by blast
      have "handed_out rs = map (\<lambda>k. (Suc ?i + k) mod unat (num_send_frames t))
                                [0 ..< length (handed_out rs)]"
        using hs by (simp only: next1 num1)
      then have "handed_out rs =
          map (\<lambda>k. (Suc (unat (next_send_buff_index t) mod unat (num_send_frames t)) + k)
                     mod unat (num_send_frames t)) [0 ..< length (handed_out rs)]"
        by (simp only: i)
      from round_robin_cons [OF this]
      have "handed_out (Some ?i # rs) =
          map (\<lambda>k. (unat (next_send_buff_index t) + k) mod unat (num_send_frames t))
            [0 ..< length (handed_out (Some ?i # rs))]"
        unfolding i by simp
      then show ?thesis
        using Get_send_buff step run inv' by simp
    qed
  next
    case (Commit i l)
    from Cons.IH [OF send_inv_commit [OF inv, of i l]] show ?thesis
      using Commit by (simp add: commit_keeps_index)
  next
    case (Complete i)
    from Cons.IH [OF send_inv_complete [OF inv, of i]] show ?thesis
      using Complete by (simp add: complete_keeps_index)
  qed
qed


text \<open>
  C4. On a transport with at least one send frame, \<^verbatim>\<open>get_send_buff\<close> first wraps the rotating
  index to 0 when it has reached the number of send frames. When the acquire times out the
  call returns none and the index stays at the wrapped value, so the next call meets the
  same buffer. When the acquire succeeds the call hands out the buffer at the wrapped index
  and the index is one more. Hence in every run of calls, with commits and completions in
  between, the buffers handed out are, in order, \<open>i, i + 1, \<dots>\<close> modulo the number of send
  frames, from the index \<open>i\<close> at the start: 0, 1, ..., \<open>num_send_frames - 1\<close>, 0, ... on a new
  transport.
\<close>

theorem round_robin:
  assumes inv: "send_inv t"
  shows "next_send_buff_index (wrap_index t) =
           (if next_send_buff_index t = num_send_frames t then 0 else next_send_buff_index t) \<and>
         (WSAWaitForMultipleEvents
            (hEvent (msb_pool t ! unat (next_send_buff_index (wrap_index t)))) during = WSA_WAIT_TIMEOUT \<longrightarrow>
            get_send_buff t during = Inr (None, wrap_index t) \<and>
            get_send_buff (wrap_index t) again = get_send_buff t again) \<and>
         (WSAWaitForMultipleEvents
            (hEvent (msb_pool t ! unat (next_send_buff_index (wrap_index t)))) during \<noteq> WSA_WAIT_TIMEOUT \<longrightarrow>
            (\<exists>t'. get_send_buff t during = Inr (Some (unat (next_send_buff_index (wrap_index t))), t') \<and>
                  next_send_buff_index t' = next_send_buff_index (wrap_index t) + 1 \<and>
                  unat (next_send_buff_index t') = Suc (unat (next_send_buff_index (wrap_index t))))) \<and>
         (\<exists>rs t'. send_run t acts = Inr (rs, t') \<and> send_inv t' \<and>
            handed_out rs =
              map (\<lambda>k. (unat (next_send_buff_index t) + k) mod unat (num_send_frames t))
                [0 ..< length (handed_out rs)])"
proof (intro conjI impI)
  show "next_send_buff_index (wrap_index t) =
      (if next_send_buff_index t = num_send_frames t then 0 else next_send_buff_index t)"
    by (simp add: wrap_index_def)
next
  assume "WSAWaitForMultipleEvents
      (hEvent (msb_pool t ! unat (next_send_buff_index (wrap_index t)))) during = WSA_WAIT_TIMEOUT"
  then show "get_send_buff t during = Inr (None, wrap_index t)"
    by (rule get_send_buff_timeout [OF inv])
next
  show "get_send_buff (wrap_index t) again = get_send_buff t again"
    by (simp add: get_send_buff_def wrap_index_idem [OF inv])
next
  assume success: "WSAWaitForMultipleEvents
      (hEvent (msb_pool t ! unat (next_send_buff_index (wrap_index t)))) during \<noteq> WSA_WAIT_TIMEOUT"
  have lt: "next_send_buff_index (wrap_index t) < num_send_frames t"
    using wrap_index_below [OF inv] by blast
  show "\<exists>t'. get_send_buff t during = Inr (Some (unat (next_send_buff_index (wrap_index t))), t') \<and>
          next_send_buff_index t' = next_send_buff_index (wrap_index t) + 1 \<and>
          unat (next_send_buff_index t') = Suc (unat (next_send_buff_index (wrap_index t)))"
    using get_send_buff_success [OF inv success] unat_inc [OF lt] by simp
next
  show "\<exists>rs t'. send_run t acts = Inr (rs, t') \<and> send_inv t' \<and>
      handed_out rs =
        map (\<lambda>k. (unat (next_send_buff_index t) + k) mod unat (num_send_frames t))
          [0 ..< length (handed_out rs)]"
    by (rule send_run_round_robin [OF inv])
qed

lemma example_run_results:
  "map_sum id fst (send_run example_transport example_run) = Inr [Some 0, Some 1, None, Some 0, None]"
  by (simp add: example_run_def example_transport_def get_send_buff_def wrap_index_def
      msb_get_new_def WSAWaitForMultipleEvents_def commit_send_buff_def complete_send_buff_def
      msb_commit_def send_completes_def Let_def)

theorem round_robin_witness:
  "send_inv example_transport \<and>
   map_sum id fst (send_run example_transport example_run) = Inr [Some 0, Some 1, None, Some 0, None] \<and>
   handed_out [Some 0, Some 1, None, Some 0, None] = [0, 1, 0] \<and>
   (\<exists>rs t'. send_run example_transport example_run = Inr (rs, t') \<and> send_inv t' \<and>
      handed_out rs =
        map (\<lambda>k. (unat (next_send_buff_index example_transport) + k)
                    mod unat (num_send_frames example_transport))
          [0 ..< length (handed_out rs)])"
  using round_robin [OF send_inv_example, of WSA_WAIT_TIMEOUT WSA_WAIT_TIMEOUT example_run]
    send_inv_example example_run_results
  by simp

text \<open>
  C8 as stated fails: the acquire of a send buffer changes the rotating index of the
  transport, from 0 to 1 on the first buffer of the example transport.
\<close>

theorem acquire_advances_the_index:
  "next_send_buff_index example_transport = 0 \<and>
   snd (snd (msb_get_new (msb_pool example_transport ! 0) WSA_WAIT_EVENT_0
               (next_send_buff_index example_transport))) = 1 \<and>
   snd (snd (msb_get_new (msb_pool example_transport ! 0) WSA_WAIT_EVENT_0
               (next_send_buff_index example_transport))) \<noteq> next_send_buff_index example_transport"
  by (simp add: example_transport_def msb_get_new_def WSAWaitForMultipleEvents_def)

text \<open>
  C8, as amended. The rotating index is advanced by the send buffer itself: \<^verbatim>\<open>get_new\<close>
  receives the index by reference, adds one to it when the wait does not time out and
  leaves it as it is otherwise. \<^verbatim>\<open>get_send_buff\<close> wraps the index and stores what \<^verbatim>\<open>get_new\<close>
  returns. Apart from the index and the buffer acquired, nothing the transport holds is
  changed.
\<close>

theorem index_is_advanced_by_the_buffer:
  "snd (snd (msb_get_new b during index)) =
     (if WSAWaitForMultipleEvents (hEvent b) during = WSA_WAIT_TIMEOUT then index else index + 1) \<and>
   (get_send_buff t during = Inr (h, t') \<longrightarrow>
      t' = (wrap_index t)
             \<lparr>msb_pool := (msb_pool t)[unat (next_send_buff_index (wrap_index t)) :=
                fst (snd (msb_get_new (msb_pool t ! unat (next_send_buff_index (wrap_index t))) during
                            (next_send_buff_index (wrap_index t))))],
              next_send_buff_index :=
                snd (snd (msb_get_new (msb_pool t ! unat (next_send_buff_index (wrap_index t))) during
                            (next_send_buff_index (wrap_index t))))\<rparr> \<and>
      num_send_frames t' = num_send_frames t \<and> send_frame_size t' = send_frame_size t \<and>
      num_recv_frames t' = num_recv_frames t \<and> recv_frame_size t' = recv_frame_size t \<and>
      mrb_pool t' = mrb_pool t \<and> pending_recv_buffs t' = pending_recv_buffs t \<and>
      sock_fd t' = sock_fd t \<and> length (msb_pool t') = length (msb_pool t))"
proof (intro conjI impI)
  show "snd (snd (msb_get_new b during index)) =
     (if WSAWaitForMultipleEvents (hEvent b) during = WSA_WAIT_TIMEOUT then index else index + 1)"
    by (simp add: msb_get_new_def)
next
  assume run: "get_send_buff t during = Inr (h, t')"
  let ?i = "unat (next_send_buff_index (wrap_index t))"
  let ?r = "msb_get_new (msb_pool t ! ?i) during (next_send_buff_index (wrap_index t))"
  from run have t': "t' = (wrap_index t)\<lparr>msb_pool := (msb_pool t)[?i := fst (snd ?r)],
      next_send_buff_index := snd (snd ?r)\<rparr>"
    by (simp add: get_send_buff_def Let_def split_beta wrap_index_fields split: if_splits)
  then show "t' = (wrap_index t)\<lparr>msb_pool := (msb_pool t)[?i := fst (snd ?r)],
      next_send_buff_index := snd (snd ?r)\<rparr>" .
  show "num_send_frames t' = num_send_frames t" "send_frame_size t' = send_frame_size t"
    "num_recv_frames t' = num_recv_frames t" "recv_frame_size t' = recv_frame_size t"
    "mrb_pool t' = mrb_pool t" "pending_recv_buffs t' = pending_recv_buffs t"
    "sock_fd t' = sock_fd t" "length (msb_pool t') = length (msb_pool t)"
    unfolding t' by (simp_all add: wrap_index_def)
qed

theorem index_is_advanced_by_the_buffer_witness:
  "get_send_buff example_transport WSA_WAIT_EVENT_0 =
     Inr (Some 0, example_transport\<lparr>msb_pool := (msb_pool example_transport)[0 := acquired],
                                     next_send_buff_index := 1\<rparr>) \<and>
   snd (snd (msb_get_new (msb_pool example_transport ! 0) WSA_WAIT_EVENT_0 0)) = 1 \<and>
   pending_recv_buffs (example_transport\<lparr>msb_pool := (msb_pool example_transport)[0 := acquired],
                                     next_send_buff_index := 1\<rparr>)
     = pending_recv_buffs example_transport"
proof -
  have run: "get_send_buff example_transport WSA_WAIT_EVENT_0 =
     Inr (Some 0, example_transport\<lparr>msb_pool := (msb_pool example_transport)[0 := acquired],
                                     next_send_buff_index := 1\<rparr>)"
    by (simp add: get_send_buff_def wrap_index_def example_transport_def msb_get_new_def
        WSAWaitForMultipleEvents_def acquired_def)
  have signalled: "hEvent (msb_pool example_transport ! 0)"
    by (simp add: example_transport_def)
  show ?thesis
    using index_is_advanced_by_the_buffer [where b = "msb_pool example_transport ! 0"
        and during = WSA_WAIT_EVENT_0 and index = 0 and t = example_transport and h = "Some 0"
        and t' = "example_transport\<lparr>msb_pool := (msb_pool example_transport)[0 := acquired],
                                     next_send_buff_index := 1\<rparr>"]
      run signalled
    by (simp add: WSAWaitForMultipleEvents_def wrap_index_def)
qed


lemma get_send_buff_no_frames:
  "msb_pool t = [] \<Longrightarrow> get_send_buff t during = Inl out_of_range"
  by (simp add: get_send_buff_def Let_def wrap_index_def)

end
